theory Spec2Isabelle
  imports Main "HOL-Library.Word" "HOL-Library.Sublist"
begin

section \<open>JavaScript strings\<close>

text \<open>
  A JavaScript string is a sequence of UTF-16 code units. Both string operations the
  sources use, \<^verbatim>\<open>String.prototype.indexOf\<close> and \<^verbatim>\<open>replace\<close> with a global regular
  expression without the \<^verbatim>\<open>u\<close> flag, work code unit by code unit.
  \<open>js\<close> reads an ASCII literal of the source as such a sequence.
\<close>

type_synonym js_string = "16 word list"

definition js :: "string \<Rightarrow> js_string" where
  "js s = map of_char s"

text \<open>
  \<^verbatim>\<open>s.indexOf(searchString)\<close>: the least index at which \<open>searchString\<close> occurs in
  \<open>s\<close>, or \<open>-1\<close> when it does not occur.
\<close>

fun indexOf_from :: "js_string \<Rightarrow> js_string \<Rightarrow> nat \<Rightarrow> int" where
  "indexOf_from [] searchString i = (if searchString = [] then int i else - 1)"
| "indexOf_from (c # s) searchString i =
     (if prefix searchString (c # s) then int i else indexOf_from s searchString (Suc i))"

definition indexOf :: "js_string \<Rightarrow> js_string \<Rightarrow> int" where
  "indexOf s searchString = indexOf_from s searchString 0"

section \<open>The queue handler: \<^verbatim>\<open>consumer\<close> (indexer-js-queue-handler/handler.js)\<close>

text \<open>
  The queue message, as the coordinator serialises it: a height, a flag and the
  function's configuration, whose account id, name and code are strings. The consumer
  reads the fields below; \<open>function_config\<close> is handed to the runner as a whole.
  Bodies of another shape (a missing field, a code that is not a string) are outside
  this type.
\<close>

record function_config =
  account_id :: js_string
  function_name :: js_string
  code :: js_string

record message =
  block_height :: int
  is_historical :: bool
  indexer_function :: function_config

text \<open>
  \<^verbatim>\<open>record.body\<close> is text. \<^verbatim>\<open>JSON.parse\<close> either throws a \<^verbatim>\<open>SyntaxError\<close> or yields
  the message the text serialises.
\<close>

datatype js_error = SyntaxError

datatype body_text = Malformed | Serialized message

fun JSON_parse :: "body_text \<Rightarrow> js_error + message" where
  "JSON_parse Malformed = Inl SyntaxError"
| "JSON_parse (Serialized m) = Inr m"

record sqs_record =
  body :: body_text

record lambda_event =
  Records :: "sqs_record list"

text \<open>
  \<^verbatim>\<open>indexer.runFunctions(block_height, functions, is_historical, options)\<close>.
  The class \<^verbatim>\<open>Indexer\<close> lives in \<^verbatim>\<open>indexer.js\<close>; its method is a parameter of the
  model: it takes the arguments of the call and the world it acts on (storage, network)
  and either returns mutations or throws, leaving a new world.
\<close>

record run_options =
  imperative :: bool
  provision :: bool

datatype runner_call =
  RunFunctions int "(js_string \<times> function_config) list" bool run_options

type_synonym ('w, 'e, 'm) run_functions = "runner_call \<Rightarrow> 'w \<Rightarrow> ('e + 'm) \<times> 'w"

text \<open>
  What the handler does, in order: each call of the runner, how the awaited promise
  settled, and each \<^verbatim>\<open>console.error\<close>.
\<close>

datatype 'e event = Invoked runner_call | Fulfilled | Rejected 'e | ConsoleError 'e

record ('w, 'e) handler_state =
  world :: 'w
  trace :: "'e event list"

text \<open>
  The \<^verbatim>\<open>for\<close> loop over \<^verbatim>\<open>event.Records\<close>. \<^verbatim>\<open>JSON.parse\<close> stands outside the
  \<^verbatim>\<open>try\<close> block, so its exception leaves the loop and rejects the handler's promise;
  \<^verbatim>\<open>continue\<close> goes to the next record; the \<^verbatim>\<open>catch\<close> block logs what the awaited
  call threw and falls through to the next record.
\<close>

fun consumer_loop ::
  "('w, 'e, 'm) run_functions \<Rightarrow> sqs_record list \<Rightarrow> ('w, 'e) handler_state
     \<Rightarrow> (js_error + unit) \<times> ('w, 'e) handler_state" where
  "consumer_loop runFunctions [] st = (Inr (), st)"
| "consumer_loop runFunctions (record # records) st =
     (case JSON_parse (body record) of
        Inl e \<Rightarrow> (Inl e, st)
      | Inr jsonBody \<Rightarrow>
          (let function_config = indexer_function jsonBody in
           if indexOf (code function_config) (js ''context.db'') \<ge> 0
           then consumer_loop runFunctions records st
           else
             (let functions =
                    [(account_id function_config @ js ''/'' @ function_name function_config,
                      function_config)];
                  call = RunFunctions (block_height jsonBody) functions (is_historical jsonBody)
                           \<lparr>imperative = True, provision = True\<rparr>
              in case runFunctions call (world st) of
                   (Inr mutations, w) \<Rightarrow>
                     consumer_loop runFunctions records
                       \<lparr>world = w, trace = trace st @ [Invoked call, Fulfilled]\<rparr>
                 | (Inl e, w) \<Rightarrow>
                     consumer_loop runFunctions records
                       \<lparr>world = w,
                        trace = trace st @ [Invoked call, Rejected e, ConsoleError e]\<rparr>)))"

definition consumer ::
  "('w, 'e, 'm) run_functions \<Rightarrow> lambda_event \<Rightarrow> 'w
     \<Rightarrow> (js_error + unit) \<times> ('w, 'e) handler_state" where
  "consumer runFunctions event w =
     consumer_loop runFunctions (Records event) \<lparr>world = w, trace = []\<rparr>"

text \<open>The call the consumer builds for a message (lines 23 to 27).\<close>

definition call_of :: "message \<Rightarrow> runner_call" where
  "call_of jsonBody =
     RunFunctions (block_height jsonBody)
       [(account_id (indexer_function jsonBody) @ js ''/'' @ function_name (indexer_function jsonBody),
         indexer_function jsonBody)]
       (is_historical jsonBody)
       \<lparr>imperative = True, provision = True\<rparr>"

text \<open>Reading a trace: the calls made, and the options a call carries.\<close>

fun invocations :: "'e event list \<Rightarrow> runner_call list" where
  "invocations [] = []"
| "invocations (Invoked call # t) = call # invocations t"
| "invocations (ev # t) = invocations t"

fun options_of :: "runner_call \<Rightarrow> run_options" where
  "options_of (RunFunctions h fs hist opts) = opts"

text \<open>
  A trace in which every call has been awaited: directly after each \<open>Invoked\<close> stands
  the settlement of that call, so no call is pending at the end of the trace.
\<close>

fun awaited :: "'e event list \<Rightarrow> bool" where
  "awaited [] = True"
| "awaited (Invoked call # Fulfilled # t) = awaited t"
| "awaited (Invoked call # Rejected e # t) = awaited t"
| "awaited (Invoked call # t) = False"
| "awaited (ev # t) = awaited t"

text \<open>
  The queue's side of a batch. The handler has no call that acknowledges a message: the
  event source that invoked it removes the records of the batch from the queue when the
  handler's promise resolves, and leaves all of them there when it rejects.
\<close>

definition acknowledged ::
  "('w, 'e, 'm) run_functions \<Rightarrow> lambda_event \<Rightarrow> 'w \<Rightarrow> sqs_record list" where
  "acknowledged runFunctions event w =
     (case fst (consumer runFunctions event w) of
        Inr u \<Rightarrow> Records event
      | Inl e \<Rightarrow> [])"

text \<open>
  What it is for the invocations of a batch to have been made and to have returned.
  \<open>to_invoke\<close> lists the messages of a batch that call for an invocation, those
  without the legacy marker; \<open>invoke_each\<close> applies the runner to the call of each in
  turn, on the world the one before left, and notes how it returned.
\<close>

definition legacy :: "message \<Rightarrow> bool" where
  "legacy m = sublist (js ''context.db'') (code (indexer_function m))"

fun to_invoke :: "sqs_record list \<Rightarrow> message list" where
  "to_invoke [] = []"
| "to_invoke (r # rs) =
     (case body r of
        Malformed \<Rightarrow> to_invoke rs
      | Serialized m \<Rightarrow> if legacy m then to_invoke rs else m # to_invoke rs)"

fun invoke_each ::
  "('w, 'e, 'm) run_functions \<Rightarrow> message list \<Rightarrow> ('w, 'e) handler_state
     \<Rightarrow> ('w, 'e) handler_state" where
  "invoke_each runFunctions [] st = st"
| "invoke_each runFunctions (m # ms) st =
     (case runFunctions (call_of m) (world st) of
        (Inr mutations, w) \<Rightarrow>
          invoke_each runFunctions ms
            \<lparr>world = w, trace = trace st @ [Invoked (call_of m), Fulfilled]\<rparr>
      | (Inl e, w) \<Rightarrow>
          invoke_each runFunctions ms
            \<lparr>world = w, trace = trace st @ [Invoked (call_of m), Rejected e, ConsoleError e]\<rparr>)"

section \<open>The editor's debug surface: \<^verbatim>\<open>executeIndexerFunction\<close> (Editor component)\<close>

text \<open>
  The values the surface computes with: a starting height is \<^verbatim>\<open>null\<close> or a number, and
  what \<^verbatim>\<open>getLatestBlockHeight\<close> resolves to is a number or nothing. Numbers are block
  heights: \<open>Number n\<close> stands for the finite double whose value is the integer \<open>n\<close>;
  \<open>NaN\<close> is what arithmetic on \<^verbatim>\<open>undefined\<close> gives.
\<close>

datatype js_value = Undefined | Null | NaN | Number int

text \<open>\<^verbatim>\<open>Number(v)\<close>\<close>

fun js_Number :: "js_value \<Rightarrow> js_value" where
  "js_Number Undefined = NaN"
| "js_Number Null = Number 0"
| "js_Number NaN = NaN"
| "js_Number (Number n) = Number n"

text \<open>\<^verbatim>\<open>a === b\<close>; \<^verbatim>\<open>NaN\<close> is equal to nothing.\<close>

definition strict_eq :: "js_value \<Rightarrow> js_value \<Rightarrow> bool" where
  "strict_eq a b = (a = b \<and> a \<noteq> NaN)"

text \<open>The test of \<^verbatim>\<open>if (v)\<close>: of these values only a non-zero number is truthy.\<close>

fun truthy :: "js_value \<Rightarrow> bool" where
  "truthy (Number n) = (n \<noteq> 0)"
| "truthy _ = False"

text \<open>
  Arithmetic on numbers is arithmetic on doubles: the exact result is rounded to the
  nearest double, a tie going to the one with the even significand. A double holds 53
  significant bits, so an integer below \<open>2 ^ 53\<close> in magnitude is kept exactly and a
  larger one is rounded to a multiple of the power of two that its length leaves over.
\<close>

fun bit_length :: "nat \<Rightarrow> nat" where
  "bit_length n = (if n = 0 then 0 else Suc (bit_length (n div 2)))"

definition round_double :: "int \<Rightarrow> int" where
  "round_double x =
     (let a = nat \<bar>x\<bar>; e = bit_length a in
      if e \<le> 53 then x
      else
        (let ulp = 2 ^ (e - 53); q = a div ulp; r = a mod ulp;
             q' = (if 2 * r < ulp then q
                   else if ulp < 2 * r then q + 1
                   else if even q then q else q + 1)
         in sgn x * int (q' * ulp)))"

text \<open>\<^verbatim>\<open>v - k\<close> for a number literal \<open>k\<close>\<close>

definition js_minus :: "js_value \<Rightarrow> int \<Rightarrow> js_value" where
  "js_minus v k =
     (case js_Number v of Number n \<Rightarrow> Number (round_double (n - k)) | _ \<Rightarrow> NaN)"

text \<open>
  The character class \<^verbatim>\<open>[a-zA-Z0-9]\<close>, and \<^verbatim>\<open>s.replace(/[^a-zA-Z0-9]/g, r)\<close>: every
  code unit outside the class is replaced by the string \<open>r\<close>.
\<close>

definition alnum :: "16 word \<Rightarrow> bool" where
  "alnum c = ((0x61 \<le> c \<and> c \<le> 0x7A) \<or> (0x41 \<le> c \<and> c \<le> 0x5A) \<or> (0x30 \<le> c \<and> c \<le> 0x39))"

definition replace_non_alnum :: "js_string \<Rightarrow> js_string \<Rightarrow> js_string" where
  "replace_non_alnum s r = concat (map (\<lambda>c. if alnum c then [c] else r) s)"

text \<open>What the component closes over: the indexer's identity and the editor's contents.\<close>

record indexer_details =
  accountId :: js_string
  indexerName :: js_string

record editor =
  indexerDetails :: indexer_details
  heights :: "int list"
  indexingCode :: js_string
  schema :: js_string

text \<open>Line 366: the name of the storage namespace.\<close>

definition schemaName :: "indexer_details \<Rightarrow> js_string" where
  "schemaName d = replace_non_alnum (accountId d @ js ''_'' @ indexerName d) (js ''_'')"

text \<open>
  The collaborators: the two methods of \<^verbatim>\<open>indexerRunner\<close> the surface calls, and
  \<^verbatim>\<open>getLatestBlockHeight\<close>. They are parameters of the model; each acts on a world
  \<open>'w\<close> and may throw an \<open>'e\<close>.
\<close>

datatype runner_request =
  ExecuteIndexerFunctionOnHeights "int list" js_string js_string js_string js_string
| Start js_value js_string js_string js_string js_string

record ('w, 'e) collaborators =
  executeIndexerFunctionOnHeights ::
    "int list \<Rightarrow> js_string \<Rightarrow> js_string \<Rightarrow> js_string \<Rightarrow> js_string \<Rightarrow> 'w \<Rightarrow> ('e + unit) \<times> 'w"
  start ::
    "js_value \<Rightarrow> js_string \<Rightarrow> js_string \<Rightarrow> js_string \<Rightarrow> js_string \<Rightarrow> 'w \<Rightarrow> ('e + unit) \<times> 'w"
  getLatestBlockHeight :: "'w \<Rightarrow> ('e + js_value) \<times> 'w"

text \<open>
  The component's state: the flag set through \<^verbatim>\<open>setIsExecutingIndexerFunction\<close>, the
  lines written with \<^verbatim>\<open>console.log\<close>, the requests made to the runner so far, and the
  world of the collaborators.
\<close>

record 'w editor_state =
  isExecutingIndexerFunction :: bool
  console :: "js_string list"
  calls :: "runner_request list"
  browser :: 'w

definition indexerRunner ::
  "('w, 'e) collaborators \<Rightarrow> runner_request \<Rightarrow> 'w \<Rightarrow> ('e + unit) \<times> 'w" where
  "indexerRunner env request =
     (case request of
        ExecuteIndexerFunctionOnHeights hs c s n opt \<Rightarrow> executeIndexerFunctionOnHeights env hs c s n opt
      | Start h c s n opt \<Rightarrow> start env h c s n opt)"

text \<open>\<^verbatim>\<open>await indexerRunner.method(...)\<close>: the request is made and its outcome awaited.\<close>

definition await_runner ::
  "('w, 'e) collaborators \<Rightarrow> runner_request \<Rightarrow> 'w editor_state \<Rightarrow> ('e + unit) \<times> 'w editor_state" where
  "await_runner env request st =
     (case indexerRunner env request (browser st) of
        (r, w) \<Rightarrow> (r, st\<lparr>calls := calls st @ [request], browser := w\<rparr>))"

text \<open>
  The statement after the \<^verbatim>\<open>switch\<close>: reached unless an awaited call threw, it clears
  the flag.
\<close>

definition after_switch :: "('e + unit) \<times> 'w editor_state \<Rightarrow> ('e + unit) \<times> 'w editor_state" where
  "after_switch r =
     (case r of
        (Inl e, st) \<Rightarrow> (Inl e, st)
      | (Inr u, st) \<Rightarrow> (Inr (), st\<lparr>isExecutingIndexerFunction := False\<rparr>))"

text \<open>
  \<^verbatim>\<open>executeIndexerFunction(option = "latest", startingBlockHeight = null)\<close>. An omitted
  argument is \<open>None\<close> (for the option) or \<open>Undefined\<close> (for the height) and takes the
  default.
\<close>

definition executeIndexerFunction ::
  "('w, 'e) collaborators \<Rightarrow> editor \<Rightarrow> js_string option \<Rightarrow> js_value \<Rightarrow> 'w editor_state
     \<Rightarrow> ('e + unit) \<times> 'w editor_state" where
  "executeIndexerFunction env ed option_arg startingBlockHeight_arg st0 =
     (let option = (case option_arg of None \<Rightarrow> js ''latest'' | Some s \<Rightarrow> s);
          startingBlockHeight =
            (case startingBlockHeight_arg of Undefined \<Rightarrow> Null | v \<Rightarrow> v);
          st = st0\<lparr>isExecutingIndexerFunction := True\<rparr>;
          schemaName = schemaName (indexerDetails ed)
      in after_switch
        (if option = js ''debugList'' then
           await_runner env
             (ExecuteIndexerFunctionOnHeights (heights ed) (indexingCode ed) (schema ed) schemaName option) st
         else if option = js ''specific'' then
           (if strict_eq startingBlockHeight Null \<and> strict_eq (js_Number startingBlockHeight) (Number 0)
            then (Inr (), st\<lparr>console := console st @
                    [js ''Invalid Starting Block Height: starting block height is null or 0'']\<rparr>)
            else await_runner env
                   (Start startingBlockHeight (indexingCode ed) (schema ed) schemaName option) st)
         else if option = js ''latest'' then
           (case getLatestBlockHeight env (browser st) of
              (Inl e, w) \<Rightarrow> (Inl e, st\<lparr>browser := w\<rparr>)
            | (Inr latestHeight, w) \<Rightarrow>
                if truthy latestHeight
                then await_runner env
                       (Start (js_minus latestHeight 10) (indexingCode ed) (schema ed) schemaName option)
                       (st\<lparr>browser := w\<rparr>)
                else (Inr (), st\<lparr>browser := w\<rparr>))
         else (Inr (), st)))"

section \<open>Parts taken from the specification\<close>

text \<open>
  Modelled from the spec: the errors of \<^verbatim>\<open>Indexer.runFunctions\<close> (\<^verbatim>\<open>indexer.js\<close> is not
  among the sources). Section 7 names them \<^verbatim>\<open>ExecutionError{ProvisioningFailed, Timeout,
  UserCodeFailed}\<close>.
\<close>

datatype ExecutionError = ProvisioningFailed | Timeout | UserCodeFailed js_string

text \<open>
  Modelled from the spec: the caller that fills the \<^verbatim>\<open>heights\<close> list of the editor (the
  buttons component, through \<^verbatim>\<open>setHeights\<close>; not among the sources). Section 3 says of
  a debug list that its heights are an ordered sequence, deduplicated by the caller: a
  height already in the list is not added again.
\<close>

definition add_height :: "int list \<Rightarrow> int \<Rightarrow> int list" where
  "add_height hs h = (if h \<in> set hs then hs else hs @ [h])"

text \<open>
  Modelled from the spec: the \<^verbatim>\<open>heights\<close> list that the same caller (not among the
  sources) has built once the user has asked for the heights \<open>requested\<close>, one after
  the other.
\<close>

definition caller_heights :: "int list \<Rightarrow> int list" where
  "caller_heights requested = foldl add_height [] requested"

text \<open>
  Modelled from the spec: \<^verbatim>\<open>IndexerRunner.executeIndexerFunctionOnHeights\<close>
  (\<^verbatim>\<open>utils/indexerRunner\<close> is not among the sources) with the indexing code of the
  scenario of section 8, which inserts one row per block. The function is run once for
  each height of the list it is given, in order; the world is the table, a row being
  named by the height of its block.
\<close>

definition executeIndexerFunctionOnHeights_spec ::
  "int list \<Rightarrow> js_string \<Rightarrow> js_string \<Rightarrow> js_string \<Rightarrow> js_string \<Rightarrow> int list
     \<Rightarrow> ('e + unit) \<times> int list" where
  "executeIndexerFunctionOnHeights_spec hs c s n opt rows =
     (Inr (), foldl (\<lambda>table h. table @ [h]) rows hs)"

section \<open>Sample inputs\<close>

text \<open>A runner that counts its calls, and one whose provisioning fails every time.\<close>

definition counting_runner :: "(nat, ExecutionError, unit) run_functions" where
  "counting_runner call n = (Inr (), Suc n)"

definition failing_provisioner :: "(nat, ExecutionError, unit) run_functions" where
  "failing_provisioner call n = (Inl ProvisioningFailed, Suc n)"

text \<open>
  Collaborators for a debug session: the runner of the scenario, a \<^verbatim>\<open>start\<close> that
  returns at once, and a \<^verbatim>\<open>getLatestBlockHeight\<close> that resolves to \<open>latest\<close>.
\<close>

definition session :: "js_value \<Rightarrow> (int list, js_error) collaborators" where
  "session latest =
     \<lparr>executeIndexerFunctionOnHeights = executeIndexerFunctionOnHeights_spec,
      start = (\<lambda>h c s n opt w. (Inr (), w)),
      getLatestBlockHeight = (\<lambda>w. (Inr latest, w))\<rparr>"

text \<open>
  The same collaborators with a \<^verbatim>\<open>start\<close> that leaves a mark: it inserts a row for the
  height it is started at.
\<close>

definition marking_session :: "js_value \<Rightarrow> (int list, js_error) collaborators" where
  "marking_session latest =
     \<lparr>executeIndexerFunctionOnHeights = executeIndexerFunctionOnHeights_spec,
      start = (\<lambda>h c s n opt w. (Inr (), case h of Number k \<Rightarrow> w @ [k] | _ \<Rightarrow> w)),
      getLatestBlockHeight = (\<lambda>w. (Inr latest, w))\<rparr>"

definition sample_editor :: "int list \<Rightarrow> editor" where
  "sample_editor hs =
     \<lparr>indexerDetails = \<lparr>accountId = js ''a.near'', indexerName = js ''posts''\<rparr>,
      heights = hs,
      indexingCode = js ''context.db.Posts.insert(p)'',
      schema = js ''CREATE TABLE posts(id INT, text TEXT)''\<rparr>"

definition idle :: "int list editor_state" where
  "idle = \<lparr>isExecutingIndexerFunction = False, console = [], calls = [], browser = []\<rparr>"

definition sample_message :: "js_string \<Rightarrow> int \<Rightarrow> message" where
  "sample_message c h =
     \<lparr>block_height = h, is_historical = False,
      indexer_function = \<lparr>account_id = js ''a.near'', function_name = js ''f'', code = c\<rparr>\<rparr>"

definition legacy_message :: message where
  "legacy_message = sample_message (js ''context.db.Posts.insert(p)'') 100"

definition plain_message :: "int \<Rightarrow> message" where
  "plain_message h = sample_message (js ''context.set(1, 2)'') h"

section \<open>String search\<close>

declare bit_length.simps [simp del]


lemma indexOf_from_nonneg_iff: "indexOf_from s n i \<ge> 0 \<longleftrightarrow> sublist n s"
proof (induction s n i rule: indexOf_from.induct)
  case (1 searchString i)
  then show ?case by simp
next
  case (2 c s searchString i)
  then show ?case by (simp add: sublist_Cons_right)
qed

lemma indexOf_nonneg_iff: "indexOf s n \<ge> 0 \<longleftrightarrow> sublist n s"
  by (simp add: indexOf_def indexOf_from_nonneg_iff)

section \<open>The consumer loop, record by record\<close>

lemma invocations_append: "invocations (a @ b) = invocations a @ invocations b"
  by (induction a rule: invocations.induct) simp_all

lemma awaited_append: "awaited a \<Longrightarrow> awaited (a @ b) = awaited b"
  by (induction a rule: awaited.induct) simp_all


lemma consumer_loop_Cons_cases:
  obtains (malformed) "body r = Malformed"
      "consumer_loop runFunctions (r # rs) st = (Inl SyntaxError, st)"
  | (skipped) m where "body r = Serialized m"
      "indexOf (code (indexer_function m)) (js ''context.db'') \<ge> 0"
      "consumer_loop runFunctions (r # rs) st = consumer_loop runFunctions rs st"
  | (fulfilled) m mutations w where "body r = Serialized m"
      "\<not> indexOf (code (indexer_function m)) (js ''context.db'') \<ge> 0"
      "runFunctions (call_of m) (world st) = (Inr mutations, w)"
      "consumer_loop runFunctions (r # rs) st =
         consumer_loop runFunctions rs
           \<lparr>world = w, trace = trace st @ [Invoked (call_of m), Fulfilled]\<rparr>"
  | (rejected) m e w where "body r = Serialized m"
      "\<not> indexOf (code (indexer_function m)) (js ''context.db'') \<ge> 0"
      "runFunctions (call_of m) (world st) = (Inl e, w)"
      "consumer_loop runFunctions (r # rs) st =
         consumer_loop runFunctions rs
           \<lparr>world = w, trace = trace st @ [Invoked (call_of m), Rejected e, ConsoleError e]\<rparr>"
proof (cases "body r")
  case Malformed
  then show ?thesis using malformed by simp
next
  case (Serialized m)
  show ?thesis
  proof (cases "indexOf (code (indexer_function m)) (js ''context.db'') \<ge> 0")
    case True
    then show ?thesis using Serialized skipped by simp
  next
    case False
    obtain res w where rw: "runFunctions (call_of m) (world st) = (res, w)"
      by (cases "runFunctions (call_of m) (world st)")
    show ?thesis
    proof (cases res)
      case (Inl e)
      have "consumer_loop runFunctions (r # rs) st =
         consumer_loop runFunctions rs
           \<lparr>world = w, trace = trace st @ [Invoked (call_of m), Rejected e, ConsoleError e]\<rparr>"
        using Serialized False rw Inl by (simp add: call_of_def Let_def)
      then show ?thesis using rejected Serialized False rw Inl by blast
    next
      case (Inr mu)
      have "consumer_loop runFunctions (r # rs) st =
         consumer_loop runFunctions rs
           \<lparr>world = w, trace = trace st @ [Invoked (call_of m), Fulfilled]\<rparr>"
        using Serialized False rw Inr by (simp add: call_of_def Let_def)
      then show ?thesis using fulfilled Serialized False rw Inr by blast
    qed
  qed
qed

lemma consumer_loop_result:
  "fst (consumer_loop runFunctions records st) =
     (if \<forall>r\<in>set records. body r \<noteq> Malformed then Inr () else Inl SyntaxError)"
proof (induction records arbitrary: st)
  case Nil
  then show ?case by simp
next
  case (Cons r rs)
  show ?case
    by (cases rule: consumer_loop_Cons_cases [of r runFunctions rs st]) (simp_all add: Cons.IH)
qed

lemma consumer_loop_trace_invariant:
  assumes "I (trace st)"
    and "\<And>t m. I t \<Longrightarrow> I (t @ [Invoked (call_of m), Fulfilled])"
    and "\<And>t m e. I t \<Longrightarrow> I (t @ [Invoked (call_of m), Rejected e, ConsoleError e])"
  shows "I (trace (snd (consumer_loop runFunctions records st)))"
  using assms(1)
proof (induction records arbitrary: st)
  case Nil
  then show ?case by simp
next
  case (Cons r rs)
  show ?case
  proof (cases rule: consumer_loop_Cons_cases [of r runFunctions rs st])
    case malformed
    then show ?thesis using Cons.prems by simp
  next
    case (skipped m)
    then show ?thesis using Cons.IH [OF Cons.prems] by simp
  next
    case (fulfilled m mutations w)
    have "I (trace \<lparr>world = w, trace = trace st @ [Invoked (call_of m), Fulfilled]\<rparr>)"
      using assms(2) [OF Cons.prems] by simp
    from Cons.IH [OF this] show ?thesis using fulfilled by simp
  next
    case (rejected m e w)
    have "I (trace \<lparr>world = w, trace = trace st @ [Invoked (call_of m), Rejected e, ConsoleError e]\<rparr>)"
      using assms(3) [OF Cons.prems] by simp
    from Cons.IH [OF this] show ?thesis using rejected by simp
  qed
qed

lemma consumer_loop_trace_extends:
  "\<exists>t. trace (snd (consumer_loop runFunctions records st)) = trace st @ t"
  by (rule consumer_loop_trace_invariant [where I = "\<lambda>u. \<exists>t. u = trace st @ t"]) auto

lemma consumer_loop_awaited:
  "awaited (trace st) \<Longrightarrow> awaited (trace (snd (consumer_loop runFunctions records st)))"
  by (rule consumer_loop_trace_invariant) (simp_all add: awaited_append)

lemma consumer_loop_invocations:
  assumes "\<forall>call\<in>set (invocations (trace st)). P call" and "\<And>m. P (call_of m)"
  shows "\<forall>call\<in>set (invocations (trace (snd (consumer_loop runFunctions records st)))). P call"
proof (rule consumer_loop_trace_invariant [where I = "\<lambda>t. \<forall>call\<in>set (invocations t). P call"])
  show "\<forall>call\<in>set (invocations (trace st)). P call"
    by (rule assms(1))
qed (auto simp: invocations_append assms(2))

lemma plain_not_legacy:
  "\<not> sublist (js ''context.db'') (code (indexer_function (plain_message h)))"
  by (simp add: plain_message_def sample_message_def js_def indexOf_nonneg_iff [symmetric] indexOf_def)

lemma legacy_is_legacy:
  "sublist (js ''context.db'') (code (indexer_function legacy_message))"
  by (simp add: legacy_message_def sample_message_def js_def sublist_code)

lemma malformed_step:
  "consumer_loop runFunctions (\<lparr>body = Malformed\<rparr> # rs) st = (Inl SyntaxError, st)"
  by simp

lemma legacy_step:
  "consumer_loop runFunctions (\<lparr>body = Serialized legacy_message\<rparr> # rs) st =
     consumer_loop runFunctions rs st"
  using legacy_is_legacy by (simp add: indexOf_nonneg_iff)

lemma counting_step:
  "consumer_loop counting_runner (\<lparr>body = Serialized (plain_message h)\<rparr> # rs)
       \<lparr>world = n, trace = t\<rparr>
   = consumer_loop counting_runner rs
       \<lparr>world = Suc n, trace = t @ [Invoked (call_of (plain_message h)), Fulfilled]\<rparr>"
  using plain_not_legacy [of h]
  by (simp add: indexOf_nonneg_iff counting_runner_def call_of_def Let_def)

lemma failing_step:
  "consumer_loop failing_provisioner (\<lparr>body = Serialized (plain_message h)\<rparr> # rs)
       \<lparr>world = n, trace = t\<rparr>
   = consumer_loop failing_provisioner rs
       \<lparr>world = Suc n, trace = t @ [Invoked (call_of (plain_message h)),
          Rejected ProvisioningFailed, ConsoleError ProvisioningFailed]\<rparr>"
  using plain_not_legacy [of h]
  by (simp add: indexOf_nonneg_iff failing_provisioner_def call_of_def Let_def)

lemmas sample_steps = malformed_step legacy_step counting_step failing_step

lemma legacy_iff: "legacy m \<longleftrightarrow> indexOf (code (indexer_function m)) (js ''context.db'') \<ge> 0"
  by (simp add: legacy_def indexOf_nonneg_iff)

lemma consumer_loop_invoke_each:
  "\<forall>r\<in>set records. body r \<noteq> Malformed \<Longrightarrow>
     snd (consumer_loop runFunctions records st) = invoke_each runFunctions (to_invoke records) st"
proof (induction records arbitrary: st)
  case Nil
  then show ?case by simp
next
  case (Cons r rs)
  have rest: "\<forall>r\<in>set rs. body r \<noteq> Malformed"
    using Cons.prems by simp
  show ?case
  proof (cases rule: consumer_loop_Cons_cases [of r runFunctions rs st])
    case malformed
    then show ?thesis using Cons.prems by simp
  next
    case (skipped m)
    then show ?thesis using Cons.IH [OF rest] by (simp add: legacy_iff)
  next
    case (fulfilled m mutations w)
    then show ?thesis using Cons.IH [OF rest] by (simp add: legacy_iff)
  next
    case (rejected m e w)
    then show ?thesis using Cons.IH [OF rest] by (simp add: legacy_iff)
  qed
qed

lemma invoke_each_invocations:
  "invocations (trace (invoke_each runFunctions ms st)) = invocations (trace st) @ map call_of ms"
  by (induction ms arbitrary: st) (auto simp: invocations_append split: prod.splits sum.splits)

lemma to_invoke_member:
  "r \<in> set rs \<Longrightarrow> body r = Serialized m \<Longrightarrow> \<not> legacy m \<Longrightarrow> m \<in> set (to_invoke rs)"
  by (induction rs) (auto split: body_text.splits)

lemma plain_not_legacy': "\<not> legacy (plain_message h)"
  using plain_not_legacy by (simp add: legacy_def)

lemma legacy_legacy: "legacy legacy_message"
  using legacy_is_legacy by (simp add: legacy_def)

section \<open>The namespace name and the debug surface, step by step\<close>

lemma js_underscore: "js ''_'' = [0x5F]"
  by (simp add: js_def)

lemma replace_non_alnum_single:
  "replace_non_alnum s [u] = map (\<lambda>c. if alnum c then c else u) s"
  by (induction s) (simp_all add: replace_non_alnum_def)

lemma schemaName_map:
  "schemaName d = map (\<lambda>c. if alnum c then c else 0x5F) (accountId d @ [0x5F] @ indexerName d)"
  by (simp add: schemaName_def js_underscore replace_non_alnum_single)

lemma underscore_not_alnum: "\<not> alnum 0x5F"
  by (simp add: alnum_def)

lemma map_eq_iff_list_all2:
  "map f xs = map f ys \<longleftrightarrow> list_all2 (\<lambda>x y. f x = f y) xs ys"
proof -
  have "map f xs = map f ys \<longleftrightarrow> list_all2 (=) (map f xs) (map f ys)"
    by (simp add: list.rel_eq)
  then show ?thesis
    by (simp add: list_all2_map1 list_all2_map2)
qed

lemma normalise_eq_iff:
  "((if alnum c then c else 0x5F) = (if alnum c' then c' else 0x5F))
     \<longleftrightarrow> (c = c' \<or> (\<not> alnum c \<and> \<not> alnum c'))"
  using underscore_not_alnum by auto

lemma sample_schemaName: "schemaName (indexerDetails (sample_editor hs)) = js ''a_near_posts''"
  by (simp add: sample_editor_def schemaName_map js_def alnum_def)

lemma option_literals:
  "js ''debugList'' \<noteq> js ''specific''" "js ''debugList'' \<noteq> js ''latest''"
  "js ''specific'' \<noteq> js ''latest''" "js ''specific'' \<noteq> js ''debugList''"
  "js ''latest'' \<noteq> js ''debugList''" "js ''latest'' \<noteq> js ''specific''"
  by (simp_all add: js_def)

lemma add_height_distinct: "distinct hs \<Longrightarrow> distinct (add_height hs h)"
  by (simp add: add_height_def)

lemma add_height_set: "set (add_height hs h) = insert h (set hs)"
  by (auto simp: add_height_def)

lemma foldl_add_height:
  "distinct acc \<Longrightarrow> distinct (foldl add_height acc hs)
     \<and> set (foldl add_height acc hs) = set acc \<union> set hs"
  by (induction hs arbitrary: acc) (simp_all add: add_height_distinct add_height_set)

lemma caller_heights_distinct: "distinct (caller_heights hs)"
  by (simp add: caller_heights_def foldl_add_height)

lemma caller_heights_set: "set (caller_heights hs) = set hs"
  by (simp add: caller_heights_def foldl_add_height)

lemma foldl_snoc: "foldl (\<lambda>table h. table @ [h]) rows hs = rows @ hs"
  by (induction hs arbitrary: rows) simp_all

lemma debugList_run:
  "executeIndexerFunction env ed (Some (js ''debugList'')) sbh st =
     after_switch (await_runner env
       (ExecuteIndexerFunctionOnHeights (heights ed) (indexingCode ed) (schema ed)
          (schemaName (indexerDetails ed)) (js ''debugList''))
       (st\<lparr>isExecutingIndexerFunction := True\<rparr>))"
  by (simp add: executeIndexerFunction_def Let_def)

lemma caller_heights_sample: "caller_heights [100, 100, 101] = [100, 101]"
  by (simp add: caller_heights_def add_height_def)

lemma latest_run:
  assumes "option_arg = None \<or> option_arg = Some (js ''latest'')"
  shows "executeIndexerFunction env ed option_arg sbh st =
     after_switch
       (case getLatestBlockHeight env (browser st) of
          (Inl e, w) \<Rightarrow> (Inl e, st\<lparr>isExecutingIndexerFunction := True, browser := w\<rparr>)
        | (Inr latestHeight, w) \<Rightarrow>
            if truthy latestHeight
            then await_runner env
                   (Start (js_minus latestHeight 10) (indexingCode ed) (schema ed)
                      (schemaName (indexerDetails ed)) (js ''latest''))
                   (st\<lparr>isExecutingIndexerFunction := True, browser := w\<rparr>)
            else (Inr (), st\<lparr>isExecutingIndexerFunction := True, browser := w\<rparr>))"
proof -
  have o: "(case option_arg of None \<Rightarrow> js ''latest'' | Some s \<Rightarrow> s) = js ''latest''"
    using assms by auto
  show ?thesis
    unfolding executeIndexerFunction_def Let_def o
    by (simp add: option_literals split: prod.splits sum.splits)
qed

lemma specific_run:
  "executeIndexerFunction env ed (Some (js ''specific'')) sbh st =
     after_switch
       (if (case sbh of Undefined \<Rightarrow> Null | v \<Rightarrow> v) = Null
        then (Inr (), st\<lparr>isExecutingIndexerFunction := True,
                console := console st @
                  [js ''Invalid Starting Block Height: starting block height is null or 0'']\<rparr>)
        else await_runner env
               (Start (case sbh of Undefined \<Rightarrow> Null | v \<Rightarrow> v) (indexingCode ed) (schema ed)
                  (schemaName (indexerDetails ed)) (js ''specific''))
               (st\<lparr>isExecutingIndexerFunction := True\<rparr>))"
  by (cases sbh) (simp_all add: executeIndexerFunction_def Let_def option_literals strict_eq_def)

lemma start_run:
  "after_switch (await_runner env (Start h c s n opt) st) =
     (case start env h c s n opt (browser st) of
        (Inl e, w) \<Rightarrow> (Inl e, st\<lparr>calls := calls st @ [Start h c s n opt], browser := w\<rparr>)
      | (Inr u, w) \<Rightarrow>
          (Inr (), st\<lparr>isExecutingIndexerFunction := False,
             calls := calls st @ [Start h c s n opt], browser := w\<rparr>))"
  by (simp add: after_switch_def await_runner_def indexerRunner_def split: prod.splits sum.splits)

lemma after_switch_simps:
  "after_switch (Inl e, st) = (Inl e, st)"
  "after_switch (Inr u, st) = (Inr (), st\<lparr>isExecutingIndexerFunction := False\<rparr>)"
  by (simp_all add: after_switch_def)

lemma bit_length_bound: "n < 2 ^ k \<Longrightarrow> bit_length n \<le> k"
proof (induction k arbitrary: n)
  case 0
  then show ?case by (simp add: bit_length.simps)
next
  case (Suc k)
  show ?case
  proof (cases "n = 0")
    case True
    then show ?thesis by (simp add: bit_length.simps)
  next
    case False
    have "n div 2 < 2 ^ k" using Suc.prems by auto
    from Suc.IH [OF this] show ?thesis
      using False by (subst bit_length.simps) simp
  qed
qed

lemma round_double_exact: "\<bar>x\<bar> < 2 ^ 53 \<Longrightarrow> round_double x = x"
proof -
  assume "\<bar>x\<bar> < 2 ^ 53"
  then have "nat \<bar>x\<bar> < 2 ^ 53" by (simp add: nat_less_iff)
  then have "bit_length (nat \<bar>x\<bar>) \<le> 53" by (rule bit_length_bound)
  then show ?thesis by (simp add: round_double_def Let_def)
qed

lemma bit_length_sample: "bit_length 99999999999999990 = 57"
  by (simp add: bit_length.simps)

lemma round_double_sample: "round_double 99999999999999990 = 99999999999999984"
  by (simp add: round_double_def Let_def bit_length_sample)

lemma round_double_490: "round_double 490 = 490"
  by (rule trans [OF round_double_exact]) simp_all

section \<open>The legacy marker\<close>

text \<open>
  Claim C1. A message whose function code contains the marker \<^verbatim>\<open>context.db\<close> is
  consumed without any call of the runner: the loop goes on with the next record from
  the very state it had (no call, no log entry, no change of the world, no exception),
  and a batch holding just this message resolves with an empty trace.
\<close>

theorem consumer_skips_legacy_marker:
  assumes "JSON_parse (body record) = Inr jsonBody"
    and "sublist (js ''context.db'') (code (indexer_function jsonBody))"
  shows "consumer_loop runFunctions (record # records) st = consumer_loop runFunctions records st
    \<and> consumer runFunctions \<lparr>Records = [record]\<rparr> w = (Inr (), \<lparr>world = w, trace = []\<rparr>)"
  using assms by (simp add: indexOf_nonneg_iff consumer_def)

theorem consumer_skips_legacy_marker_witness:
  "JSON_parse (body \<lparr>body = Serialized legacy_message\<rparr>) = Inr legacy_message
   \<and> sublist (js ''context.db'') (code (indexer_function legacy_message))
   \<and> consumer_loop counting_runner
         [\<lparr>body = Serialized legacy_message\<rparr>, \<lparr>body = Serialized (plain_message 101)\<rparr>]
         \<lparr>world = 0, trace = []\<rparr>
       = (Inr (), \<lparr>world = 1, trace = [Invoked (call_of (plain_message 101)), Fulfilled]\<rparr>)
   \<and> consumer counting_runner \<lparr>Records = [\<lparr>body = Serialized legacy_message\<rparr>]\<rparr> 0
       = (Inr (), \<lparr>world = 0, trace = []\<rparr>)"
proof -
  have p: "JSON_parse (body \<lparr>body = Serialized legacy_message\<rparr>) = Inr legacy_message"
    by simp
  have m: "sublist (js ''context.db'') (code (indexer_function legacy_message))"
    by (rule legacy_is_legacy)
  show ?thesis
    using p m consumer_skips_legacy_marker [OF p m, of counting_runner
        "[\<lparr>body = Serialized (plain_message 101)\<rparr>]" "\<lparr>world = 0, trace = []\<rparr>" 0]
    by (simp add: sample_steps del: consumer_loop.simps(2))
qed

section \<open>Errors thrown by the runner\<close>

text \<open>
  Claim C4. What the awaited call of the runner throws for one record is caught and
  logged with \<^verbatim>\<open>console.error\<close>; it does not leave the loop. The loop goes on with
  the records that follow, from the world the failed call left, and whether the handler
  resolves depends on the bodies of those records alone, never on the failure.
\<close>

theorem consumer_catches_runner_error:
  assumes "JSON_parse (body record) = Inr jsonBody"
    and "\<not> sublist (js ''context.db'') (code (indexer_function jsonBody))"
    and "runFunctions (call_of jsonBody) (world st) = (Inl e, w)"
  shows "consumer_loop runFunctions (record # records) st =
           consumer_loop runFunctions records
             \<lparr>world = w,
              trace = trace st @ [Invoked (call_of jsonBody), Rejected e, ConsoleError e]\<rparr>
       \<and> fst (consumer_loop runFunctions (record # records) st) =
           (if \<forall>r\<in>set records. body r \<noteq> Malformed then Inr () else Inl SyntaxError)"
proof -
  have "body record \<noteq> Malformed"
    using assms(1) by (cases "body record") simp_all
  moreover have "consumer_loop runFunctions (record # records) st =
           consumer_loop runFunctions records
             \<lparr>world = w,
              trace = trace st @ [Invoked (call_of jsonBody), Rejected e, ConsoleError e]\<rparr>"
    using assms by (simp add: indexOf_nonneg_iff call_of_def Let_def)
  ultimately show ?thesis
    by (simp add: consumer_loop_result del: consumer_loop.simps)
qed

theorem consumer_catches_runner_error_witness:
  "JSON_parse (body \<lparr>body = Serialized (plain_message 100)\<rparr>) = Inr (plain_message 100)
   \<and> \<not> sublist (js ''context.db'') (code (indexer_function (plain_message 100)))
   \<and> failing_provisioner (call_of (plain_message 100)) (world \<lparr>world = 0, trace = []\<rparr>)
       = (Inl ProvisioningFailed, 1)
   \<and> consumer_loop failing_provisioner
        [\<lparr>body = Serialized (plain_message 100)\<rparr>, \<lparr>body = Serialized (plain_message 101)\<rparr>]
        \<lparr>world = 0, trace = []\<rparr>
      = (Inr (), \<lparr>world = 2, trace =
           [Invoked (call_of (plain_message 100)), Rejected ProvisioningFailed,
            ConsoleError ProvisioningFailed,
            Invoked (call_of (plain_message 101)), Rejected ProvisioningFailed,
            ConsoleError ProvisioningFailed]\<rparr>)"
proof -
  have p: "JSON_parse (body \<lparr>body = Serialized (plain_message 100)\<rparr>) = Inr (plain_message 100)"
    by simp
  have m: "\<not> sublist (js ''context.db'') (code (indexer_function (plain_message 100)))"
    by (rule plain_not_legacy)
  have r: "failing_provisioner (call_of (plain_message 100)) (world \<lparr>world = 0, trace = []\<rparr>)
       = (Inl ProvisioningFailed, 1)"
    by (simp add: failing_provisioner_def)
  show ?thesis
    using p m r consumer_catches_runner_error [where runFunctions = failing_provisioner
        and st = "\<lparr>world = 0, trace = []\<rparr>"
        and records = "[\<lparr>body = Serialized (plain_message 101)\<rparr>]", OF p m r]
    by (simp add: sample_steps del: consumer_loop.simps(2))
qed

section \<open>The options of every call\<close>

text \<open>
  Claim C9. Every call of the runner the consumer makes carries the options
  \<^verbatim>\<open>{imperative: true, provision: true}\<close>.
\<close>

theorem consumer_always_imperative_and_provisioning:
  "\<forall>call\<in>set (invocations (trace (snd (consumer runFunctions event w)))).
     imperative (options_of call) \<and> provision (options_of call)"
  unfolding consumer_def
  by (rule consumer_loop_invocations) (simp_all add: call_of_def)

theorem consumer_always_imperative_and_provisioning_witness:
  "invocations (trace (snd (consumer counting_runner
      \<lparr>Records = [\<lparr>body = Serialized (plain_message 100)\<rparr>,
                  \<lparr>body = Serialized (plain_message 101)\<rparr>]\<rparr> 0)))
     = [call_of (plain_message 100), call_of (plain_message 101)]
   \<and> imperative (options_of (call_of (plain_message 100)))
   \<and> provision (options_of (call_of (plain_message 100)))
   \<and> imperative (options_of (call_of (plain_message 101)))
   \<and> provision (options_of (call_of (plain_message 101)))"
proof -
  have t: "consumer counting_runner
      \<lparr>Records = [\<lparr>body = Serialized (plain_message 100)\<rparr>,
                  \<lparr>body = Serialized (plain_message 101)\<rparr>]\<rparr> 0
      = (Inr (), \<lparr>world = 2, trace = [Invoked (call_of (plain_message 100)), Fulfilled,
           Invoked (call_of (plain_message 101)), Fulfilled]\<rparr>)"
    by (simp add: consumer_def sample_steps del: consumer_loop.simps(2))
  show ?thesis
    using consumer_always_imperative_and_provisioning [of counting_runner
        "\<lparr>Records = [\<lparr>body = Serialized (plain_message 100)\<rparr>,
                  \<lparr>body = Serialized (plain_message 101)\<rparr>]\<rparr>" 0]
    by (simp add: t)
qed

section \<open>Acknowledged only after the invocations\<close>

text \<open>
  Claim C5. A message is acknowledged only when the handler's promise has resolved,
  and by then the invocation for it has been made and has returned: the state the
  handler ends in is the one reached by applying the runner to the call of every
  message of the batch that has no legacy marker, one after the other, each on the world
  the one before left. In the trace the calls are those of these messages, in order,
  each directly followed by its settlement; an acknowledged record is a message that
  carries the marker or is among those invoked.
\<close>

theorem consumer_acknowledges_after_invocations:
  assumes "record \<in> set (acknowledged runFunctions event w)"
  shows "fst (consumer runFunctions event w) = Inr ()
     \<and> snd (consumer runFunctions event w) =
         invoke_each runFunctions (to_invoke (Records event)) \<lparr>world = w, trace = []\<rparr>
     \<and> invocations (trace (snd (consumer runFunctions event w))) =
         map call_of (to_invoke (Records event))
     \<and> awaited (trace (snd (consumer runFunctions event w)))
     \<and> (\<exists>m. body record = Serialized m \<and> (legacy m \<or> m \<in> set (to_invoke (Records event))))"
proof -
  have res: "fst (consumer runFunctions event w) = Inr ()" and mem: "record \<in> set (Records event)"
    using assms by (auto simp: acknowledged_def split: sum.splits)
  have parse: "\<forall>r\<in>set (Records event). body r \<noteq> Malformed"
    using res unfolding consumer_def consumer_loop_result by (simp split: if_splits)
  have st: "snd (consumer runFunctions event w) =
      invoke_each runFunctions (to_invoke (Records event)) \<lparr>world = w, trace = []\<rparr>"
    unfolding consumer_def by (rule consumer_loop_invoke_each [OF parse])
  have inv: "invocations (trace (snd (consumer runFunctions event w))) =
      map call_of (to_invoke (Records event))"
    unfolding st by (simp add: invoke_each_invocations)
  have aw: "awaited (trace (snd (consumer runFunctions event w)))"
    unfolding consumer_def by (rule consumer_loop_awaited) simp
  obtain m where m: "body record = Serialized m"
    using parse mem by (cases "body record") auto
  have "legacy m \<or> m \<in> set (to_invoke (Records event))"
    using to_invoke_member [OF mem m] by blast
  then show ?thesis
    using res st inv aw m by blast
qed

theorem consumer_acknowledges_after_invocations_witness:
  "\<lparr>body = Serialized (plain_message 101)\<rparr> \<in> set (acknowledged counting_runner
      \<lparr>Records = [\<lparr>body = Serialized (plain_message 100)\<rparr>, \<lparr>body = Serialized legacy_message\<rparr>,
                  \<lparr>body = Serialized (plain_message 101)\<rparr>]\<rparr> 0)
   \<and> consumer counting_runner
      \<lparr>Records = [\<lparr>body = Serialized (plain_message 100)\<rparr>, \<lparr>body = Serialized legacy_message\<rparr>,
                  \<lparr>body = Serialized (plain_message 101)\<rparr>]\<rparr> 0
      = (Inr (), \<lparr>world = 2, trace = [Invoked (call_of (plain_message 100)), Fulfilled,
           Invoked (call_of (plain_message 101)), Fulfilled]\<rparr>)
   \<and> to_invoke [\<lparr>body = Serialized (plain_message 100)\<rparr>, \<lparr>body = Serialized legacy_message\<rparr>,
                  \<lparr>body = Serialized (plain_message 101)\<rparr>]
      = [plain_message 100, plain_message 101]"
proof -
  let ?event = "\<lparr>Records = [\<lparr>body = Serialized (plain_message 100)\<rparr>,
      \<lparr>body = Serialized legacy_message\<rparr>, \<lparr>body = Serialized (plain_message 101)\<rparr>]\<rparr>"
  have t: "consumer counting_runner ?event 0
      = (Inr (), \<lparr>world = 2, trace = [Invoked (call_of (plain_message 100)), Fulfilled,
           Invoked (call_of (plain_message 101)), Fulfilled]\<rparr>)"
    by (simp add: consumer_def sample_steps del: consumer_loop.simps(2))
  have a: "\<lparr>body = Serialized (plain_message 101)\<rparr> \<in> set (acknowledged counting_runner ?event 0)"
    by (simp add: acknowledged_def t)
  have i: "to_invoke (Records ?event) = [plain_message 100, plain_message 101]"
    by (simp add: plain_not_legacy' legacy_legacy)
  show ?thesis
    using a t i consumer_acknowledges_after_invocations [OF a]
    by simp
qed

section \<open>A failed provisioning\<close>

text \<open>
  Claim C2 says that a provisioning failure in queue mode is surfaced to the caller and
  that the consumer never moves on to the next message. The \<^verbatim>\<open>catch\<close> block takes
  every error of the awaited call alike: with a runner whose provisioning fails, the
  handler logs the failure, invokes the runner for the next message and resolves.
\<close>

theorem provisioning_failure_not_surfaced_counterexample:
  "consumer failing_provisioner
      \<lparr>Records = [\<lparr>body = Serialized (plain_message 100)\<rparr>,
                  \<lparr>body = Serialized (plain_message 101)\<rparr>]\<rparr> 0
     = (Inr (), \<lparr>world = 2, trace =
           [Invoked (call_of (plain_message 100)), Rejected ProvisioningFailed,
            ConsoleError ProvisioningFailed,
            Invoked (call_of (plain_message 101)), Rejected ProvisioningFailed,
            ConsoleError ProvisioningFailed]\<rparr>)
   \<and> provision (options_of (call_of (plain_message 100)))"
  by (simp add: consumer_def sample_steps del: consumer_loop.simps(2)) (simp add: call_of_def)

text \<open>
  Claim C2, as the code has it. The call for a message carries the provision flag. If
  it fails with \<^verbatim>\<open>ProvisioningFailed\<close>, the consumer logs the failure with
  \<^verbatim>\<open>console.error\<close> and invokes the runner for the next message; when the bodies of
  the remaining records parse, the handler resolves, so the failure is neither returned
  to a caller nor is the message left on the queue.
\<close>

theorem consumer_logs_provisioning_failure_and_moves_on:
  fixes runFunctions :: "('w, ExecutionError, 'm) run_functions"
  assumes "JSON_parse (body record) = Inr jsonBody"
    and "\<not> sublist (js ''context.db'') (code (indexer_function jsonBody))"
    and "runFunctions (call_of jsonBody) (world st) = (Inl ProvisioningFailed, w)"
    and "JSON_parse (body record') = Inr jsonBody'"
    and "\<not> sublist (js ''context.db'') (code (indexer_function jsonBody'))"
    and "\<forall>r\<in>set records. body r \<noteq> Malformed"
  shows "provision (options_of (call_of jsonBody))
     \<and> fst (consumer_loop runFunctions (record # record' # records) st) = Inr ()
     \<and> (\<exists>t. trace (snd (consumer_loop runFunctions (record # record' # records) st)) =
             trace st @ [Invoked (call_of jsonBody), Rejected ProvisioningFailed,
                         ConsoleError ProvisioningFailed, Invoked (call_of jsonBody')] @ t)"
proof -
  let ?st1 = "\<lparr>world = w, trace = trace st @ [Invoked (call_of jsonBody),
      Rejected ProvisioningFailed, ConsoleError ProvisioningFailed]\<rparr>"
  have b: "body record = Serialized jsonBody" "body record' = Serialized jsonBody'"
    using assms(1,4) by (cases "body record"; cases "body record'"; simp)+
  have step: "consumer_loop runFunctions (record # record' # records) st =
      consumer_loop runFunctions (record' # records) ?st1"
    using assms(1-3) by (simp add: indexOf_nonneg_iff call_of_def Let_def)
  have res: "fst (consumer_loop runFunctions (record # record' # records) st) = Inr ()"
    using b assms(6) by (simp add: consumer_loop_result del: consumer_loop.simps)
  have "\<exists>t. trace (snd (consumer_loop runFunctions (record' # records) ?st1)) =
      trace ?st1 @ [Invoked (call_of jsonBody')] @ t"
  proof (cases rule: consumer_loop_Cons_cases [of record' runFunctions records ?st1])
    case malformed
    then show ?thesis using b by simp
  next
    case (skipped m)
    then show ?thesis using b assms(5) by (simp add: indexOf_nonneg_iff)
  next
    case (fulfilled m mutations w')
    obtain t where "trace (snd (consumer_loop runFunctions records
        \<lparr>world = w', trace = trace ?st1 @ [Invoked (call_of m), Fulfilled]\<rparr>)) =
        trace \<lparr>world = w', trace = trace ?st1 @ [Invoked (call_of m), Fulfilled]\<rparr> @ t"
      using consumer_loop_trace_extends by blast
    then show ?thesis using fulfilled b by (simp del: consumer_loop.simps)
  next
    case (rejected m e w')
    obtain t where "trace (snd (consumer_loop runFunctions records
        \<lparr>world = w', trace = trace ?st1 @ [Invoked (call_of m), Rejected e, ConsoleError e]\<rparr>)) =
        trace \<lparr>world = w', trace = trace ?st1 @ [Invoked (call_of m), Rejected e, ConsoleError e]\<rparr> @ t"
      using consumer_loop_trace_extends by blast
    then show ?thesis using rejected b by (simp del: consumer_loop.simps)
  qed
  then show ?thesis
    using res step by (simp add: call_of_def del: consumer_loop.simps)
qed

theorem consumer_logs_provisioning_failure_and_moves_on_witness:
  "JSON_parse (body \<lparr>body = Serialized (plain_message 100)\<rparr>) = Inr (plain_message 100)
   \<and> \<not> sublist (js ''context.db'') (code (indexer_function (plain_message 100)))
   \<and> failing_provisioner (call_of (plain_message 100)) (world \<lparr>world = 0, trace = []\<rparr>)
       = (Inl ProvisioningFailed, 1)
   \<and> JSON_parse (body \<lparr>body = Serialized (plain_message 101)\<rparr>) = Inr (plain_message 101)
   \<and> \<not> sublist (js ''context.db'') (code (indexer_function (plain_message 101)))
   \<and> body \<lparr>body = Serialized legacy_message\<rparr> \<noteq> Malformed
   \<and> fst (consumer_loop failing_provisioner
        [\<lparr>body = Serialized (plain_message 100)\<rparr>, \<lparr>body = Serialized (plain_message 101)\<rparr>,
         \<lparr>body = Serialized legacy_message\<rparr>]
        \<lparr>world = 0, trace = []\<rparr>) = Inr ()
   \<and> (\<exists>t. trace (snd (consumer_loop failing_provisioner
        [\<lparr>body = Serialized (plain_message 100)\<rparr>, \<lparr>body = Serialized (plain_message 101)\<rparr>,
         \<lparr>body = Serialized legacy_message\<rparr>]
        \<lparr>world = 0, trace = []\<rparr>)) =
        [Invoked (call_of (plain_message 100)), Rejected ProvisioningFailed,
         ConsoleError ProvisioningFailed, Invoked (call_of (plain_message 101))] @ t)"
proof -
  have p: "JSON_parse (body \<lparr>body = Serialized (plain_message 100)\<rparr>) = Inr (plain_message 100)"
    by simp
  have m: "\<not> sublist (js ''context.db'') (code (indexer_function (plain_message 100)))"
    by (rule plain_not_legacy)
  have r: "failing_provisioner (call_of (plain_message 100)) (world \<lparr>world = 0, trace = []\<rparr>)
       = (Inl ProvisioningFailed, 1)"
    by (simp add: failing_provisioner_def)
  have p': "JSON_parse (body \<lparr>body = Serialized (plain_message 101)\<rparr>) = Inr (plain_message 101)"
    by simp
  have m': "\<not> sublist (js ''context.db'') (code (indexer_function (plain_message 101)))"
    by (rule plain_not_legacy)
  have a: "\<forall>r\<in>set [\<lparr>body = Serialized legacy_message\<rparr>]. body r \<noteq> Malformed"
    by simp
  show ?thesis
    using p m r p' m' a
      consumer_logs_provisioning_failure_and_moves_on [where runFunctions = failing_provisioner
        and st = "\<lparr>world = 0, trace = []\<rparr>", OF p m r p' m' a]
    by (simp add: sample_steps del: consumer_loop.simps(2))
qed

section \<open>The name of the storage namespace\<close>

text \<open>
  Claim C6. The namespace name is a function of the account id and the indexer name
  alone: the two are joined with an underscore, every alphanumeric code unit is kept and
  every other one is replaced by the underscore (code unit \<open>0x5F\<close>), one for one. The
  name has the length of the joined string, is not empty, and consists of letters,
  digits and underscores only.
\<close>

theorem schemaName_normalises:
  "schemaName \<lparr>accountId = a, indexerName = n\<rparr>
     = map (\<lambda>c. if alnum c then c else 0x5F) (a @ js ''_'' @ n)
   \<and> length (schemaName \<lparr>accountId = a, indexerName = n\<rparr>) = length a + 1 + length n
   \<and> (\<forall>c\<in>set (schemaName \<lparr>accountId = a, indexerName = n\<rparr>). alnum c \<or> c = 0x5F)"
  by (auto simp: schemaName_map js_underscore)

theorem schemaName_normalises_witness:
  "schemaName \<lparr>accountId = js ''a.near'', indexerName = js ''my-posts''\<rparr> = js ''a_near_my_posts''
   \<and> length (js ''a_near_my_posts'') = length (js ''a.near'') + 1 + length (js ''my-posts'')
   \<and> list_all (\<lambda>c. alnum c \<or> c = 0x5F) (js ''a_near_my_posts'')"
proof -
  have e: "map (\<lambda>c. if alnum c then c else 0x5F) (js ''a.near'' @ js ''_'' @ js ''my-posts'')
      = js ''a_near_my_posts''"
    by (simp add: js_def alnum_def)
  show ?thesis
    using schemaName_normalises [of "js ''a.near''" "js ''my-posts''"]
    unfolding e by (simp add: js_def list_all_iff)
qed

text \<open>
  Claim C3 asks that distinct identities never share a namespace name, in particular
  not \<^verbatim>\<open>a.b\<close> and \<^verbatim>\<open>a_b\<close>. The replacement sends both to the same name.
\<close>

theorem schemaName_collision_counterexample:
  "\<lparr>accountId = js ''a.b'', indexerName = js ''c''\<rparr>
     \<noteq> \<lparr>accountId = js ''a_b'', indexerName = js ''c''\<rparr>
   \<and> schemaName \<lparr>accountId = js ''a.b'', indexerName = js ''c''\<rparr> = js ''a_b_c''
   \<and> schemaName \<lparr>accountId = js ''a_b'', indexerName = js ''c''\<rparr> = js ''a_b_c''"
  by (simp add: schemaName_map js_def alnum_def)

text \<open>
  Claim C3, as the code has it. Two identities share a namespace name exactly when
  their joined strings (account id, underscore, indexer name) have the same length and
  at every position either hold the same code unit or both hold a non-alphanumeric one.
  Identities whose joined strings differ in length or at an alphanumeric position get
  distinct names.
\<close>

theorem schemaName_eq_iff:
  "schemaName d = schemaName d' \<longleftrightarrow>
     list_all2 (\<lambda>c c'. c = c' \<or> (\<not> alnum c \<and> \<not> alnum c'))
       (accountId d @ js ''_'' @ indexerName d) (accountId d' @ js ''_'' @ indexerName d')"
  by (simp only: schemaName_map js_underscore map_eq_iff_list_all2 normalise_eq_iff)

theorem schemaName_eq_iff_witness:
  "list_all2 (\<lambda>c c'. c = c' \<or> (\<not> alnum c \<and> \<not> alnum c'))
       (js ''a.b'' @ js ''_'' @ js ''c'') (js ''a-b'' @ js ''_'' @ js ''c'')
   \<and> schemaName \<lparr>accountId = js ''a.b'', indexerName = js ''c''\<rparr>
       = schemaName \<lparr>accountId = js ''a-b'', indexerName = js ''c''\<rparr>
   \<and> \<not> list_all2 (\<lambda>c c'. c = c' \<or> (\<not> alnum c \<and> \<not> alnum c'))
       (js ''a.b'' @ js ''_'' @ js ''c'') (js ''a.d'' @ js ''_'' @ js ''c'')
   \<and> schemaName \<lparr>accountId = js ''a.b'', indexerName = js ''c''\<rparr>
       \<noteq> schemaName \<lparr>accountId = js ''a.d'', indexerName = js ''c''\<rparr>"
proof -
  have y: "list_all2 (\<lambda>c c'. c = c' \<or> (\<not> alnum c \<and> \<not> alnum c'))
       (js ''a.b'' @ js ''_'' @ js ''c'') (js ''a-b'' @ js ''_'' @ js ''c'')"
    by (simp add: js_def alnum_def)
  have n: "\<not> list_all2 (\<lambda>c c'. c = c' \<or> (\<not> alnum c \<and> \<not> alnum c'))
       (js ''a.b'' @ js ''_'' @ js ''c'') (js ''a.d'' @ js ''_'' @ js ''c'')"
    by (simp add: js_def alnum_def)
  show ?thesis
    using y n
      schemaName_eq_iff [of "\<lparr>accountId = js ''a.b'', indexerName = js ''c''\<rparr>"
        "\<lparr>accountId = js ''a-b'', indexerName = js ''c''\<rparr>"]
      schemaName_eq_iff [of "\<lparr>accountId = js ''a.b'', indexerName = js ''c''\<rparr>"
        "\<lparr>accountId = js ''a.d'', indexerName = js ''c''\<rparr>"]
    by simp
qed

section \<open>Replaying a list of heights\<close>

text \<open>
  Claim C7. With option \<^verbatim>\<open>debugList\<close> the surface hands the \<^verbatim>\<open>heights\<close> of the
  editor to the runner as they are, in one request. With the list deduplicated by the
  caller and a runner that inserts one row per height it is given, each requested height
  gets exactly one row: for the requested heights 100, 100, 101 the table ends with the
  two rows 100 and 101.
\<close>

theorem debugList_processes_each_height_once:
  fixes env :: "(int list, 'e) collaborators"
  shows "fst (executeIndexerFunction
           (env\<lparr>executeIndexerFunctionOnHeights := executeIndexerFunctionOnHeights_spec\<rparr>)
           (ed\<lparr>heights := caller_heights requested\<rparr>) (Some (js ''debugList'')) sbh st) = Inr ()
   \<and> browser (snd (executeIndexerFunction
           (env\<lparr>executeIndexerFunctionOnHeights := executeIndexerFunctionOnHeights_spec\<rparr>)
           (ed\<lparr>heights := caller_heights requested\<rparr>) (Some (js ''debugList'')) sbh st))
       = browser st @ caller_heights requested
   \<and> calls (snd (executeIndexerFunction
           (env\<lparr>executeIndexerFunctionOnHeights := executeIndexerFunctionOnHeights_spec\<rparr>)
           (ed\<lparr>heights := caller_heights requested\<rparr>) (Some (js ''debugList'')) sbh st))
       = calls st @ [ExecuteIndexerFunctionOnHeights (caller_heights requested) (indexingCode ed)
                       (schema ed) (schemaName (indexerDetails ed)) (js ''debugList'')]
   \<and> distinct (caller_heights requested)
   \<and> set (caller_heights requested) = set requested"
  by (simp add: debugList_run after_switch_def await_runner_def indexerRunner_def
      executeIndexerFunctionOnHeights_spec_def foldl_snoc caller_heights_distinct caller_heights_set)

theorem debugList_processes_each_height_once_witness:
  "fst (executeIndexerFunction (session Undefined)
          (sample_editor (caller_heights [100, 100, 101])) (Some (js ''debugList'')) Undefined idle)
     = Inr ()
   \<and> browser (snd (executeIndexerFunction (session Undefined)
          (sample_editor (caller_heights [100, 100, 101])) (Some (js ''debugList'')) Undefined idle))
     = [100, 101]
   \<and> calls (snd (executeIndexerFunction (session Undefined)
          (sample_editor (caller_heights [100, 100, 101])) (Some (js ''debugList'')) Undefined idle))
     = [ExecuteIndexerFunctionOnHeights [100, 101] (indexingCode (sample_editor []))
          (schema (sample_editor [])) (js ''a_near_posts'') (js ''debugList'')]
   \<and> distinct [100, 101 :: int] \<and> set [100, 101 :: int] = set [100, 100, 101]"
proof -
  have e: "(session Undefined)\<lparr>executeIndexerFunctionOnHeights := executeIndexerFunctionOnHeights_spec\<rparr>
      = session Undefined"
    by (simp add: session_def)
  have h: "(sample_editor hs)\<lparr>heights := caller_heights [100, 100, 101]\<rparr>
      = sample_editor (caller_heights [100, 100, 101])" for hs
    by (simp add: sample_editor_def)
  show ?thesis
    using debugList_processes_each_height_once [where env = "session Undefined"
        and ed = "sample_editor []" and requested = "[100, 100, 101]" and sbh = Undefined
        and st = idle]
    unfolding e h
    by (simp add: caller_heights_sample idle_def sample_schemaName)
qed

section \<open>Starting from the latest block\<close>

text \<open>
  Claim C8 says that the runner is started at the latest height minus a fixed offset
  whenever a latest height is obtained. The test is \<^verbatim>\<open>if (latestHeight)\<close>: when the
  height obtained is 0 the runner is not started. The subtraction is one of doubles: for
  the height \<open>10 ^ 17\<close> the runner is started at 99999999999999984.
\<close>

theorem latest_zero_counterexample:
  "getLatestBlockHeight (marking_session (Number 0)) (browser idle) = (Inr (Number 0), [])
   \<and> executeIndexerFunction (marking_session (Number 0)) (sample_editor [])
        (Some (js ''latest'')) Undefined idle = (Inr (), idle)
   \<and> browser (snd (executeIndexerFunction (marking_session (Number 100000000000000000))
        (sample_editor []) (Some (js ''latest'')) Undefined idle)) = [99999999999999984]"
  by (simp add: latest_run start_run js_minus_def round_double_sample after_switch_simps
      marking_session_def idle_def)

text \<open>
  Claim C8, as the code has it. With option \<^verbatim>\<open>latest\<close> (also the default of an omitted
  option) the surface asks for the latest block height. When the answer is a number
  other than 0, \<^verbatim>\<open>start\<close> of the runner is called once, on the world the request left,
  with that height minus 10 as a double; the result is exactly the height minus 10
  whenever that is below \<open>2 ^ 53\<close> in magnitude. What \<^verbatim>\<open>start\<close> throws is thrown by
  the surface, with the flag left set. When the request throws, or the answer is nothing
  or the number 0, \<^verbatim>\<open>start\<close> is not called.
\<close>

theorem latest_starts_ten_below:
  assumes "option_arg = None \<or> option_arg = Some (js ''latest'')"
    and "getLatestBlockHeight env (browser st) = (r, w)"
  shows "executeIndexerFunction env ed option_arg sbh st =
     (case r of
        Inl e \<Rightarrow> (Inl e, st\<lparr>isExecutingIndexerFunction := True, browser := w\<rparr>)
      | Inr latestHeight \<Rightarrow>
          (case latestHeight of
             Number latest \<Rightarrow>
               if latest \<noteq> 0
               then
                 (case start env (Number (round_double (latest - 10))) (indexingCode ed) (schema ed)
                         (schemaName (indexerDetails ed)) (js ''latest'') w of
                    (Inl e, w') \<Rightarrow>
                      (Inl e, st\<lparr>isExecutingIndexerFunction := True,
                         calls := calls st @
                           [Start (Number (round_double (latest - 10))) (indexingCode ed)
                              (schema ed) (schemaName (indexerDetails ed)) (js ''latest'')],
                         browser := w'\<rparr>)
                  | (Inr u, w') \<Rightarrow>
                      (Inr (), st\<lparr>isExecutingIndexerFunction := False,
                         calls := calls st @
                           [Start (Number (round_double (latest - 10))) (indexingCode ed)
                              (schema ed) (schemaName (indexerDetails ed)) (js ''latest'')],
                         browser := w'\<rparr>))
               else (Inr (), st\<lparr>isExecutingIndexerFunction := False, browser := w\<rparr>)
           | _ \<Rightarrow> (Inr (), st\<lparr>isExecutingIndexerFunction := False, browser := w\<rparr>)))
   \<and> (\<forall>latest. \<bar>latest - 10\<bar> < 2 ^ 53 \<longrightarrow> round_double (latest - 10) = latest - 10)"
proof -
  have exact: "\<forall>latest. \<bar>latest - 10\<bar> < 2 ^ 53 \<longrightarrow> round_double (latest - 10) = latest - 10"
    by (simp add: round_double_exact)
  have run: "executeIndexerFunction env ed option_arg sbh st =
     (case r of
        Inl e \<Rightarrow> (Inl e, st\<lparr>isExecutingIndexerFunction := True, browser := w\<rparr>)
      | Inr latestHeight \<Rightarrow>
          (case latestHeight of
             Number latest \<Rightarrow>
               if latest \<noteq> 0
               then
                 (case start env (Number (round_double (latest - 10))) (indexingCode ed) (schema ed)
                         (schemaName (indexerDetails ed)) (js ''latest'') w of
                    (Inl e, w') \<Rightarrow>
                      (Inl e, st\<lparr>isExecutingIndexerFunction := True,
                         calls := calls st @
                           [Start (Number (round_double (latest - 10))) (indexingCode ed)
                              (schema ed) (schemaName (indexerDetails ed)) (js ''latest'')],
                         browser := w'\<rparr>)
                  | (Inr u, w') \<Rightarrow>
                      (Inr (), st\<lparr>isExecutingIndexerFunction := False,
                         calls := calls st @
                           [Start (Number (round_double (latest - 10))) (indexingCode ed)
                              (schema ed) (schemaName (indexerDetails ed)) (js ''latest'')],
                         browser := w'\<rparr>))
               else (Inr (), st\<lparr>isExecutingIndexerFunction := False, browser := w\<rparr>)
           | _ \<Rightarrow> (Inr (), st\<lparr>isExecutingIndexerFunction := False, browser := w\<rparr>)))"
  proof (cases r)
    case (Inl e)
    then show ?thesis
      using assms(2) by (simp add: latest_run [OF assms(1)] after_switch_simps)
  next
    case (Inr latestHeight)
    then show ?thesis
      using assms(2)
      by (cases latestHeight)
        (simp_all add: latest_run [OF assms(1)] start_run js_minus_def after_switch_simps
          split: prod.splits sum.splits)
  qed
  show ?thesis using run exact by (rule conjI)
qed

theorem latest_starts_ten_below_witness:
  "(Some (js ''latest'') = None \<or> Some (js ''latest'') = Some (js ''latest''))
   \<and> getLatestBlockHeight (marking_session (Number 500)) (browser idle) = (Inr (Number 500), [])
   \<and> executeIndexerFunction (marking_session (Number 500)) (sample_editor [])
        (Some (js ''latest'')) Undefined idle
      = (Inr (), \<lparr>isExecutingIndexerFunction = False, console = [],
           calls = [Start (Number 490) (indexingCode (sample_editor [])) (schema (sample_editor []))
                      (js ''a_near_posts'') (js ''latest'')],
           browser = [490]\<rparr>)"
proof -
  have o: "Some (js ''latest'') = None \<or> Some (js ''latest'') = Some (js ''latest'')"
    by simp
  have g: "getLatestBlockHeight (marking_session (Number 500)) (browser idle)
      = (Inr (Number 500), [])"
    by (simp add: marking_session_def idle_def)
  show ?thesis
    using o g latest_starts_ten_below [OF o g, where ed = "sample_editor []" and sbh = Undefined]
    by (simp add: sample_schemaName idle_def marking_session_def round_double_490)
qed

section \<open>Starting from a given block\<close>

text \<open>
  Claim C10. With option \<^verbatim>\<open>specific\<close> the runner is started exactly when the starting
  height is not \<^verbatim>\<open>null\<close> (an omitted argument takes the default \<^verbatim>\<open>null\<close>): \<^verbatim>\<open>start\<close>
  of the runner is then called once with that height, on the world as it is, and what
  it returns or throws is what the surface returns or throws. The guard asks for the
  value to be \<^verbatim>\<open>null\<close> and to convert to 0, so the height 0 is not rejected: it is
  passed to \<^verbatim>\<open>start\<close> like any other number. For \<^verbatim>\<open>null\<close> the message about an
  invalid height is logged and nothing is called.
\<close>

theorem specific_starts_unless_null:
  "executeIndexerFunction env ed (Some (js ''specific'')) startingBlockHeight st =
     (if startingBlockHeight = Null \<or> startingBlockHeight = Undefined
      then (Inr (), st\<lparr>isExecutingIndexerFunction := False,
              console := console st @
                [js ''Invalid Starting Block Height: starting block height is null or 0'']\<rparr>)
      else
        (case start env startingBlockHeight (indexingCode ed) (schema ed)
                (schemaName (indexerDetails ed)) (js ''specific'') (browser st) of
           (Inl e, w) \<Rightarrow>
             (Inl e, st\<lparr>isExecutingIndexerFunction := True,
                calls := calls st @ [Start startingBlockHeight (indexingCode ed) (schema ed)
                                       (schemaName (indexerDetails ed)) (js ''specific'')],
                browser := w\<rparr>)
         | (Inr u, w) \<Rightarrow>
             (Inr (), st\<lparr>isExecutingIndexerFunction := False,
                calls := calls st @ [Start startingBlockHeight (indexingCode ed) (schema ed)
                                       (schemaName (indexerDetails ed)) (js ''specific'')],
                browser := w\<rparr>)))
   \<and> executeIndexerFunction env ed (Some (js ''specific'')) (Number 0) st =
     (case start env (Number 0) (indexingCode ed) (schema ed)
             (schemaName (indexerDetails ed)) (js ''specific'') (browser st) of
        (Inl e, w) \<Rightarrow>
          (Inl e, st\<lparr>isExecutingIndexerFunction := True,
             calls := calls st @ [Start (Number 0) (indexingCode ed) (schema ed)
                                    (schemaName (indexerDetails ed)) (js ''specific'')],
             browser := w\<rparr>)
      | (Inr u, w) \<Rightarrow>
          (Inr (), st\<lparr>isExecutingIndexerFunction := False,
             calls := calls st @ [Start (Number 0) (indexingCode ed) (schema ed)
                                    (schemaName (indexerDetails ed)) (js ''specific'')],
             browser := w\<rparr>))"
  by (cases startingBlockHeight)
    (simp_all add: specific_run start_run after_switch_simps split: prod.splits sum.splits)

theorem specific_starts_unless_null_witness:
  "executeIndexerFunction (marking_session Undefined) (sample_editor [])
       (Some (js ''specific'')) Null idle
     = (Inr (), \<lparr>isExecutingIndexerFunction = False,
          console = [js ''Invalid Starting Block Height: starting block height is null or 0''],
          calls = [], browser = []\<rparr>)
   \<and> executeIndexerFunction (marking_session Undefined) (sample_editor [])
       (Some (js ''specific'')) (Number 0) idle
     = (Inr (), \<lparr>isExecutingIndexerFunction = False, console = [],
          calls = [Start (Number 0) (indexingCode (sample_editor [])) (schema (sample_editor []))
                     (js ''a_near_posts'') (js ''specific'')],
          browser = [0]\<rparr>)"
  using specific_starts_unless_null [where env = "marking_session Undefined"
      and ed = "sample_editor []" and startingBlockHeight = Null and st = idle]
  by (simp add: sample_schemaName idle_def marking_session_def)

end
